theory Spec2Isabelle
  imports Complex_Main
begin

section \<open>Strings and regular-expression character classes\<close>

text \<open>
  A text is a \<^typ>\<open>string\<close>: a list of 8-bit characters, read as the UTF-16 code units
  U+0000 to U+00FF (Latin-1). The length of the list is the \<open>length\<close> of the
  JavaScript string. Code units above U+00FF are outside this model.
\<close>

definition re_space :: "char \<Rightarrow> bool" where
  \<comment> \<open>the class \<open>\s\<close>: TAB, LF, VT, FF, CR, SPACE and NO-BREAK SPACE\<close>
  "re_space c \<longleftrightarrow>
     c \<in> {CHR 0x09, CHR 0x0A, CHR 0x0B, CHR 0x0C, CHR 0x0D, CHR 0x20, CHR 0xA0}"

definition re_word :: "char \<Rightarrow> bool" where
  \<comment> \<open>the class \<open>\w\<close>: \<open>[A-Za-z0-9_]\<close>\<close>
  "re_word c \<longleftrightarrow>
     (let n = (of_char c :: nat)
      in (48 \<le> n \<and> n \<le> 57) \<or> (65 \<le> n \<and> n \<le> 90) \<or> n = 95 \<or> (97 \<le> n \<and> n \<le> 122))"

definition re_terminator :: "char \<Rightarrow> bool" where
  \<comment> \<open>the class \<open>[.!?]\<close>\<close>
  "re_terminator c \<longleftrightarrow> c \<in> {CHR ''.'', CHR ''!'', CHR ''?''}"

text \<open>
  \<open>s.split(/[class]+/)\<close>: the pieces of \<open>s\<close> between the maximal runs of characters of the
  class. A run at the start or at the end of \<open>s\<close> leaves an empty piece there, and the
  empty string gives the one piece \<open>""\<close>. The flag says that the scan is inside a run,
  whose piece has been emitted already.
\<close>

fun split_runs :: "(char \<Rightarrow> bool) \<Rightarrow> bool \<Rightarrow> string \<Rightarrow> string \<Rightarrow> string list" where
  "split_runs sep inrun piece [] = [piece]"
| "split_runs sep inrun piece (c # cs) =
     (if sep c then
        (if inrun then split_runs sep True [] cs
         else piece # split_runs sep True [] cs)
      else split_runs sep False (piece @ [c]) cs)"

definition split :: "(char \<Rightarrow> bool) \<Rightarrow> string \<Rightarrow> string list" where
  "split sep s = split_runs sep False [] s"

definition trim :: "string \<Rightarrow> string" where
  \<comment> \<open>\<open>s.trim()\<close>: white space and line terminators removed at both ends\<close>
  "trim s = rev (dropWhile re_space (rev (dropWhile re_space s)))"

definition remove_spaces :: "string \<Rightarrow> string" where
  \<comment> \<open>\<open>s.replace(/\s/g, '')\<close>\<close>
  "remove_spaces s = filter (\<lambda>c. \<not> re_space c) s"

section \<open>Numbers\<close>

text \<open>
  The result of a division of two counts. \<open>Finite q\<close> stands for the double nearest to
  the rational \<open>q\<close>; \<open>0 / 0\<close> is \<open>NaN\<close>, and a positive count divided by \<open>0\<close> is
  \<open>Infinity\<close>.
\<close>

datatype number = NaN | Infinity | Finite rat

definition divide_counts :: "nat \<Rightarrow> nat \<Rightarrow> number" where
  "divide_counts a b =
     (if b = 0 then (if a = 0 then NaN else Infinity)
      else Finite (of_nat a / of_nat b))"

definition or_zero :: "number \<Rightarrow> number" where
  \<comment> \<open>\<open>x || 0\<close>: \<open>NaN\<close> and \<open>0\<close> are falsy\<close>
  "or_zero x = (case x of NaN \<Rightarrow> Finite 0
                | Infinity \<Rightarrow> Infinity
                | Finite q \<Rightarrow> (if q = 0 then Finite 0 else Finite q))"

section \<open>calculateStats\<close>

record stats =
  wordCount :: nat
  charCount :: nat
  charCountWithoutSpaces :: nat
  sentenceCount :: nat
  avgWordLength :: number

definition stats_words :: "string \<Rightarrow> string list" where
  \<comment> \<open>\<open>text.split(/\s+/).filter(word => word.length > 0)\<close>\<close>
  "stats_words text = filter (\<lambda>word. length word > 0) (split re_space text)"

definition stats_sentences :: "string \<Rightarrow> string list" where
  \<comment> \<open>\<open>text.split(/[.!?]+/).filter(s => s.trim())\<close>: a non-empty string is truthy\<close>
  "stats_sentences text = filter (\<lambda>s. trim s \<noteq> []) (split re_terminator text)"

definition calculateStats :: "string \<Rightarrow> stats" where
  "calculateStats text =
     (let words = stats_words text;
          sentences = stats_sentences text;
          charCountWithoutSpaces = length (remove_spaces text)
      in \<lparr> wordCount = length words,
           charCount = length text,
           charCountWithoutSpaces = charCountWithoutSpaces,
           sentenceCount = length sentences,
           avgWordLength =
             or_zero (divide_counts (foldl (\<lambda>acc word. acc + length word) 0 words)
                                    (length words)) \<rparr>)"

section \<open>calculateWordFrequency\<close>

definition toLowerCase_char :: "char \<Rightarrow> char" where
  \<comment> \<open>the letters \<open>A-Z\<close> and the Latin-1 capitals U+00C0 to U+00DE (but the sign U+00D7)
      move by 32; every other code unit up to U+00FF is its own lower case\<close>
  "toLowerCase_char c =
     (let n = (of_char c :: nat)
      in if (65 \<le> n \<and> n \<le> 90) \<or> (192 \<le> n \<and> n \<le> 214) \<or> (216 \<le> n \<and> n \<le> 222)
         then char_of (n + 32) else c)"

definition toLowerCase :: "string \<Rightarrow> string" where
  "toLowerCase s = map toLowerCase_char s"

text \<open>
  The matches of \<open>/\b\w+\b/g\<close>, left to right: a match starts at a word boundary, takes
  word characters greedily and ends at a word boundary, so the matches are the maximal
  runs of word characters.
\<close>

fun word_runs :: "string \<Rightarrow> string \<Rightarrow> string list" where
  "word_runs run [] = (if run = [] then [] else [run])"
| "word_runs run (c # cs) =
     (if re_word c then word_runs (run @ [c]) cs
      else if run = [] then word_runs [] cs
      else run # word_runs [] cs)"

definition match_words :: "string \<Rightarrow> string list option" where
  \<comment> \<open>\<open>s.match(/\b\w+\b/g)\<close> is \<open>null\<close> when nothing matches\<close>
  "match_words s = (case word_runs [] s of [] \<Rightarrow> None | ws \<Rightarrow> Some ws)"

definition frequency_words :: "string \<Rightarrow> string list" where
  \<comment> \<open>\<open>text.toLowerCase().match(/\b\w+\b/g) || []\<close>\<close>
  "frequency_words text = (case match_words (toLowerCase text) of None \<Rightarrow> [] | Some ws \<Rightarrow> ws)"

definition stopWords :: "string set" where
  "stopWords = {''the'', ''and'', ''is'', ''in'', ''to'', ''of''}"

text \<open>
  The values that \<open>frequency\<close> holds: a number, or a string. \<open>frequency\<close> is an ordinary
  object, created by \<open>{}\<close>, so a read of a key that is not an own property goes to
  \<open>Object.prototype\<close>. Of its properties two have a name that is a lower-case run of
  word characters: \<open>constructor\<close> (the function \<open>Object\<close>) and the accessor \<open>__proto__\<close>
  (which gives \<open>Object.prototype\<close> itself). Both are truthy objects, and \<open>+ 1\<close>
  turns them into strings.
\<close>

datatype jsvalue = Num nat | Str string

type_synonym entry = "string \<times> jsvalue"

definition next_count :: "entry list \<Rightarrow> string \<Rightarrow> jsvalue" where
  \<comment> \<open>\<open>(frequency[word] || 0) + 1\<close>\<close>
  "next_count frequency word =
     (case map_of frequency word of
        Some (Num n) \<Rightarrow> Num (n + 1)
      | Some (Str s) \<Rightarrow> (if s = [] then Num 1 else Str (s @ ''1''))
      | None \<Rightarrow>
          (if word = ''constructor'' then Str (''function Object() { [native code] }'' @ ''1'')
           else if word = ''__proto__'' then Str (''[object Object]'' @ ''1'')
           else Num 1))"

fun put_property :: "entry list \<Rightarrow> string \<Rightarrow> jsvalue \<Rightarrow> entry list" where
  \<comment> \<open>an own property keeps its place; a new one is created after the others\<close>
  "put_property [] k v = [(k, v)]"
| "put_property (p # ps) k v =
     (if fst p = k then (k, v) # ps else p # put_property ps k v)"

definition assign :: "entry list \<Rightarrow> string \<Rightarrow> jsvalue \<Rightarrow> entry list" where
  \<comment> \<open>\<open>frequency[word] = v\<close>, for a number or a string \<open>v\<close>: the setter of \<open>__proto__\<close>
      ignores a value that is neither an object nor \<open>null\<close>\<close>
  "assign frequency word v =
     (if word = ''__proto__'' then frequency else put_property frequency word v)"

definition count_word :: "entry list \<Rightarrow> string \<Rightarrow> entry list" where
  "count_word frequency word =
     (if word \<notin> stopWords then assign frequency word (next_count frequency word)
      else frequency)"

definition frequency_of :: "string \<Rightarrow> entry list" where
  \<comment> \<open>the object \<open>frequency\<close> after the \<open>forEach\<close>, its properties in creation order\<close>
  "frequency_of text = foldl count_word [] (frequency_words text)"

text \<open>
  \<open>Object.entries\<close> lists the own properties whose key is an array index first, in
  ascending numeric order, then the other keys in creation order. An array index is the
  canonical decimal form of an integer from \<open>0\<close> to \<open>2^32 - 2\<close>.
\<close>

definition is_digit :: "char \<Rightarrow> bool" where
  "is_digit c \<longleftrightarrow> (let n = (of_char c :: nat) in 48 \<le> n \<and> n \<le> 57)"

definition index_value :: "string \<Rightarrow> int" where
  "index_value k = foldl (\<lambda>a c. 10 * a + (of_char c - 48)) 0 k"

definition is_array_index :: "string \<Rightarrow> bool" where
  "is_array_index k \<longleftrightarrow>
     k \<noteq> [] \<and> list_all is_digit k \<and> (k = ''0'' \<or> hd k \<noteq> CHR ''0'')
     \<and> index_value k < 2 ^ 32 - 1"

definition Object_entries :: "entry list \<Rightarrow> entry list" where
  "Object_entries obj =
     sort_key (\<lambda>e. index_value (fst e)) (filter (\<lambda>e. is_array_index (fst e)) obj)
     @ filter (\<lambda>e. \<not> is_array_index (fst e)) obj"

text \<open>
  The comparator \<open>(a, b) => b[1] - a[1]\<close>. \<open>None\<close> is \<open>NaN\<close>: the strings that
  \<open>next_count\<close> makes are not numerals. The sort reads \<open>NaN\<close> as \<open>0\<close>.
\<close>

definition comparator :: "entry \<Rightarrow> entry \<Rightarrow> int option" where
  "comparator a b =
     (case (snd a, snd b) of
        (Num m, Num n) \<Rightarrow> Some (int n - int m)
      | _ \<Rightarrow> None)"

definition sort_compare :: "entry \<Rightarrow> entry \<Rightarrow> int" where
  "sort_compare a b = (case comparator a b of None \<Rightarrow> 0 | Some v \<Rightarrow> v)"

text \<open>
  \<open>Array.prototype.sort\<close> is stable. It is modelled as an insertion sort: an element
  goes before the first element that it does not have to follow. When all counts are
  numbers the comparator is consistent and every stable sort gives this result. With a
  \<open>NaN\<close> comparison between numbers that differ the language leaves the order to the
  engine, and the order of the model is then not the one of every engine: the binary
  insertion of V8 can place an entry elsewhere. A list in which every comparison of two
  neighbours gives \<open>0\<close> or keeps them stays as it is in both.
\<close>

fun insert_sorted :: "entry \<Rightarrow> entry list \<Rightarrow> entry list" where
  "insert_sorted x [] = [x]"
| "insert_sorted x (y # ys) =
     (if sort_compare x y \<le> 0 then x # y # ys else y # insert_sorted x ys)"

fun array_sort :: "entry list \<Rightarrow> entry list" where
  "array_sort [] = []"
| "array_sort (x # xs) = insert_sorted x (array_sort xs)"

definition calculateWordFrequency :: "string \<Rightarrow> entry list" where
  "calculateWordFrequency text = take 20 (array_sort (Object_entries (frequency_of text)))"

section \<open>Order in a list\<close>

text \<open>
  \<open>before xs a b\<close>: some occurrence of \<open>a\<close> in \<open>xs\<close> comes ahead of an occurrence of
  \<open>b\<close>. \<open>first_seen_before ws a b\<close>: the word \<open>a\<close> is met in \<open>ws\<close> ahead of the first
  \<open>b\<close>. \<open>count_of\<close> reads the count of an entry that holds a number.
\<close>

fun before :: "'a list \<Rightarrow> 'a \<Rightarrow> 'a \<Rightarrow> bool" where
  "before [] a b = False"
| "before (x # xs) a b = ((x = a \<and> b \<in> set xs) \<or> before xs a b)"

definition first_seen_before :: "string list \<Rightarrow> string \<Rightarrow> string \<Rightarrow> bool" where
  "first_seen_before ws a b \<longleftrightarrow> a \<noteq> b \<and> a \<in> set (takeWhile (\<lambda>w. w \<noteq> b) ws)"

definition count_of :: "entry \<Rightarrow> int" where
  "count_of e = (case snd e of Num n \<Rightarrow> int n | Str s \<Rightarrow> 0)"

text \<open>
  The order of the keys that \<open>Object.entries\<close> gives: array indices by value, ahead of
  the other keys, which keep the order in which the words were first met.
\<close>

definition key_order :: "string list \<Rightarrow> string \<Rightarrow> string \<Rightarrow> bool" where
  "key_order ws a b \<longleftrightarrow>
     (is_array_index a \<and> is_array_index b \<and> index_value a < index_value b)
     \<or> (is_array_index a \<and> \<not> is_array_index b)
     \<or> (\<not> is_array_index a \<and> \<not> is_array_index b \<and> first_seen_before ws a b)"

section \<open>Invocations and the state that they share\<close>

text \<open>
  What outlives a call of an analysis function is the realm of the program. The stop-word
  set, the object \<open>frequency\<close>, the arrays and the regular expressions are made anew in
  every call. Of the realm \<open>calculateWordFrequency\<close> reaches \<open>Object.prototype\<close>: the
  read \<open>frequency[word]\<close> goes there for a key that is not an own property, and so does
  the write \<open>frequency[word] = v\<close>, to look for a setter. A property of the prototype
  holds an object (given with the string that \<open>+ 1\<close> makes of it) or a number or a
  string, or it is the accessor \<open>__proto__\<close>.
\<close>

datatype slot = ObjectValue string | PrimitiveValue jsvalue | ProtoAccessor

record realm =
  object_prototype :: "(string \<times> slot) list"

definition standard_realm :: realm where
  \<comment> \<open>the properties of \<open>Object.prototype\<close> when the program starts\<close>
  "standard_realm =
     \<lparr> object_prototype =
         [(''constructor'', ObjectValue ''function Object() { [native code] }''),
          (''__defineGetter__'', ObjectValue ''function __defineGetter__() { [native code] }''),
          (''__defineSetter__'', ObjectValue ''function __defineSetter__() { [native code] }''),
          (''hasOwnProperty'', ObjectValue ''function hasOwnProperty() { [native code] }''),
          (''__lookupGetter__'', ObjectValue ''function __lookupGetter__() { [native code] }''),
          (''__lookupSetter__'', ObjectValue ''function __lookupSetter__() { [native code] }''),
          (''isPrototypeOf'', ObjectValue ''function isPrototypeOf() { [native code] }''),
          (''propertyIsEnumerable'',
             ObjectValue ''function propertyIsEnumerable() { [native code] }''),
          (''toString'', ObjectValue ''function toString() { [native code] }''),
          (''valueOf'', ObjectValue ''function valueOf() { [native code] }''),
          (''__proto__'', ProtoAccessor),
          (''toLocaleString'', ObjectValue ''function toLocaleString() { [native code] }'')] \<rparr>"

datatype looked_up = Undefined | Primitive jsvalue | ObjectRef string

definition get_property :: "realm \<Rightarrow> entry list \<Rightarrow> string \<Rightarrow> looked_up" where
  \<comment> \<open>\<open>frequency[word]\<close>: the own property, or else the one of the prototype; the getter
      of \<open>__proto__\<close> gives the prototype itself\<close>
  "get_property g frequency word =
     (case map_of frequency word of
        Some v \<Rightarrow> Primitive v
      | None \<Rightarrow>
          (case map_of (object_prototype g) word of
             None \<Rightarrow> Undefined
           | Some (ObjectValue s) \<Rightarrow> ObjectRef s
           | Some (PrimitiveValue v) \<Rightarrow> Primitive v
           | Some ProtoAccessor \<Rightarrow> ObjectRef ''[object Object]''))"

definition next_count_in :: "realm \<Rightarrow> entry list \<Rightarrow> string \<Rightarrow> jsvalue" where
  \<comment> \<open>\<open>(frequency[word] || 0) + 1\<close>\<close>
  "next_count_in g frequency word =
     (case get_property g frequency word of
        Undefined \<Rightarrow> Num 1
      | Primitive (Num n) \<Rightarrow> Num (n + 1)
      | Primitive (Str s) \<Rightarrow> (if s = [] then Num 1 else Str (s @ ''1''))
      | ObjectRef s \<Rightarrow> Str (s @ ''1''))"

definition assign_in ::
  "realm \<Rightarrow> entry list \<Rightarrow> string \<Rightarrow> jsvalue \<Rightarrow> realm \<times> entry list" where
  \<comment> \<open>\<open>frequency[word] = v\<close>, for a number or a string \<open>v\<close>: an own property is
      updated; the setter of \<open>__proto__\<close> ignores such a value; over a data property of the
      prototype (taken as writable, as the standard ones are), or over none, the write
      makes an own property of \<open>frequency\<close>\<close>
  "assign_in g frequency word v =
     (if word \<in> fst ` set frequency then (g, put_property frequency word v)
      else
        (case map_of (object_prototype g) word of
           Some ProtoAccessor \<Rightarrow> (g, frequency)
         | _ \<Rightarrow> (g, put_property frequency word v)))"

definition count_word_in :: "realm \<times> entry list \<Rightarrow> string \<Rightarrow> realm \<times> entry list" where
  "count_word_in st word =
     (case st of
        (g, frequency) \<Rightarrow>
          if word \<notin> stopWords then assign_in g frequency word (next_count_in g frequency word)
          else (g, frequency))"

definition calculateWordFrequency_call :: "realm \<Rightarrow> string \<Rightarrow> entry list \<times> realm" where
  \<comment> \<open>one call of \<open>calculateWordFrequency\<close> in a realm: its result and the realm that it
      leaves; \<open>frequency\<close> starts as the empty object\<close>
  "calculateWordFrequency_call g text =
     (case foldl count_word_in (g, []) (frequency_words text) of
        (g', frequency) \<Rightarrow> (take 20 (array_sort (Object_entries frequency)), g'))"

definition calculateStats_call :: "realm \<Rightarrow> string \<Rightarrow> stats \<times> realm" where
  \<comment> \<open>one call of \<open>calculateStats\<close>: it reads and writes strings, arrays and regular
      expressions of its own only\<close>
  "calculateStats_call g text = (calculateStats text, g)"

section \<open>processPDF\<close>

text \<open>
  The libraries that \<open>processPDF\<close> calls are parameters of the model: \<open>pdfParse\<close> gives
  the text of the document or fails; \<open>fromBuffer\<close> is the module variable of that name,
  which is \<open>undefined\<close> (\<open>None\<close>) until the import of \<open>pdf-to-img\<close> has ended, and then
  gives the pages or fails; \<open>recognize\<close> stands for
  \<open>Tesseract.recognize(await page.data, 'eng')\<close> and gives the \<open>data.text\<close> of its
  result or fails.

  A library may throw, or reject with, any value, and the \<open>catch\<close> reads the property
  \<open>message\<close> of what it caught. \<open>ErrorObject m\<close> is an object whose \<open>message\<close> reads as
  the string \<open>m\<close>; a string, and any other value but \<open>undefined\<close> and \<open>null\<close>, has no
  such property. What \<open>processPDF\<close> itself throws is always an \<open>Error\<close> object.
\<close>

datatype thrown =
  ErrorObject string | StringValue string | OtherValue | ThrownUndefined | ThrownNull

datatype error = Error (message: string)

record ('buffer, 'page) services =
  pdfParse :: "'buffer \<Rightarrow> thrown + string"
  fromBuffer :: "('buffer \<Rightarrow> thrown + 'page list) option"
  recognize :: "'page \<Rightarrow> string \<Rightarrow> thrown + string"

text \<open>The calls of the libraries that \<open>processPDF\<close> makes, in their order.\<close>

datatype ('buffer, 'page) call =
  PdfParse 'buffer | FromBuffer 'buffer | Recognize 'page string

fun ocr_pages ::
  "('buffer, 'page) services \<Rightarrow> 'page list \<Rightarrow> string
     \<Rightarrow> (thrown + string) \<times> ('buffer, 'page) call list" where
  \<comment> \<open>the loop \<open>for (const page of pages)\<close> with \<open>fullText += text + '\n'\<close>\<close>
  "ocr_pages sv [] fullText = (Inr fullText, [])"
| "ocr_pages sv (page # pages) fullText =
     (case recognize sv page ''eng'' of
        Inl e \<Rightarrow> (Inl e, [Recognize page ''eng''])
      | Inr text \<Rightarrow>
          (case ocr_pages sv pages (fullText @ text @ [CHR 0x0A]) of
             (r, calls) \<Rightarrow> (r, Recognize page ''eng'' # calls)))"

definition try_block ::
  "('buffer, 'page) services \<Rightarrow> 'buffer \<Rightarrow> (thrown + string) \<times> ('buffer, 'page) call list" where
  \<comment> \<open>the body of the \<open>try\<close>: \<open>Inl\<close> is what it throws. While \<open>fromBuffer\<close> is
      \<open>undefined\<close>, line 106 calls nothing and throws a \<open>TypeError\<close>.\<close>
  "try_block sv buffer =
     (case pdfParse sv buffer of
        Inl e \<Rightarrow> (Inl e, [PdfParse buffer])
      | Inr text \<Rightarrow>
          if length (trim text) > 50 then (Inr text, [PdfParse buffer])
          else
            (case fromBuffer sv of
               None \<Rightarrow>
                 (Inl (ErrorObject ''fromBuffer is not a function''), [PdfParse buffer])
             | Some f \<Rightarrow>
                 (case f buffer of
                    Inl e \<Rightarrow> (Inl e, [PdfParse buffer, FromBuffer buffer])
                  | Inr pages \<Rightarrow>
                      (case ocr_pages sv pages [] of
                         (r, calls) \<Rightarrow> (r, PdfParse buffer # FromBuffer buffer # calls)))))"

definition catch_clause :: "thrown \<Rightarrow> error" where
  \<comment> \<open>\<open>throw new Error(`Processing failed: ${error.message}`)\<close>: a missing property
      reads as \<open>undefined\<close>; the read itself throws a \<open>TypeError\<close> (here with the
      wording of V8) when the value caught is \<open>undefined\<close> or \<open>null\<close>\<close>
  "catch_clause e =
     (case e of
        ErrorObject m \<Rightarrow> Error (''Processing failed: '' @ m)
      | StringValue s \<Rightarrow> Error (''Processing failed: '' @ ''undefined'')
      | OtherValue \<Rightarrow> Error (''Processing failed: '' @ ''undefined'')
      | ThrownUndefined \<Rightarrow>
          Error ''Cannot read properties of undefined (reading 'message')''
      | ThrownNull \<Rightarrow>
          Error ''Cannot read properties of null (reading 'message')'')"

definition processPDF ::
  "('buffer, 'page) services \<Rightarrow> 'buffer \<Rightarrow> (error + string) \<times> ('buffer, 'page) call list" where
  "processPDF sv buffer =
     (case try_block sv buffer of
        (Inl e, calls) \<Rightarrow> (Inl (catch_clause e), calls)
      | (Inr text, calls) \<Rightarrow> (Inr text, calls))"


section \<open>Properties of calculateStats\<close>

lemma concat_split_runs:
  "(inrun \<longrightarrow> piece = []) \<Longrightarrow>
   concat (split_runs sep inrun piece s) = piece @ filter (\<lambda>c. \<not> sep c) s"
  by (induction s arbitrary: inrun piece) auto

lemma length_nonempty_le_concat:
  "length (filter (\<lambda>x. length x > 0) xs) \<le> length (concat xs)"
proof (induction xs)
  case Nil
  show ?case by simp
next
  case (Cons a xs)
  then show ?case by (cases a) auto
qed

lemma length_stats_words_le:
  "length (stats_words s) \<le> length (remove_spaces s)"
proof -
  have "length (stats_words s) \<le> length (concat (split re_space s))"
    unfolding stats_words_def by (rule length_nonempty_le_concat)
  also have "concat (split re_space s) = remove_spaces s"
    by (simp add: split_def concat_split_runs remove_spaces_def)
  finally show ?thesis .
qed

lemma avgWordLength_finite:
  "\<exists>q. avgWordLength (calculateStats s) = Finite q"
  by (simp add: calculateStats_def Let_def divide_counts_def or_zero_def)

text \<open>
  C3. A text without a word (the empty text, or white space only) has the average word
  length \<open>0\<close>: the division \<open>0 / 0\<close> gives \<open>NaN\<close>, and \<open>|| 0\<close> replaces it.
\<close>

theorem avg_zero_without_words:
  "wordCount (calculateStats s) = 0 \<Longrightarrow> avgWordLength (calculateStats s) = Finite 0"
  by (simp add: calculateStats_def Let_def divide_counts_def or_zero_def)

theorem avg_zero_without_words_witness:
  "wordCount (calculateStats [CHR 0x20, CHR 0x0A, CHR 0x09]) = 0
   \<and> avgWordLength (calculateStats [CHR 0x20, CHR 0x0A, CHR 0x09]) = Finite 0"
proof -
  have h: "wordCount (calculateStats [CHR 0x20, CHR 0x0A, CHR 0x09]) = 0"
    by code_simp
  show ?thesis using h avg_zero_without_words [OF h] by simp
qed

text \<open>
  C10. In every statistics record the number of words is at most the number of
  characters that are not white space, which is at most the number of all characters.
\<close>

theorem stats_count_order:
  "wordCount (calculateStats s) \<le> charCountWithoutSpaces (calculateStats s)
   \<and> charCountWithoutSpaces (calculateStats s) \<le> charCount (calculateStats s)"
  using length_stats_words_le [of s]
  by (simp add: calculateStats_def Let_def remove_spaces_def)

section \<open>Properties of the analysis as a whole\<close>

text \<open>
  C5. Both analysis functions give a result for every string: no operation of theirs
  can throw, and the one division never leaves \<open>NaN\<close> or \<open>Infinity\<close> in the record.
  For the empty string the record is all zero and the frequency list is empty.
\<close>

theorem analysis_total_and_empty:
  "(\<forall>s. \<exists>q. avgWordLength (calculateStats s) = Finite q)
   \<and> calculateStats [] =
       \<lparr> wordCount = 0, charCount = 0, charCountWithoutSpaces = 0,
         sentenceCount = 0, avgWordLength = Finite 0 \<rparr>
   \<and> calculateWordFrequency [] = []"
proof -
  have "calculateStats [] =
       \<lparr> wordCount = 0, charCount = 0, charCountWithoutSpaces = 0,
         sentenceCount = 0, avgWordLength = Finite 0 \<rparr>"
    by (simp add: calculateStats_def stats_words_def stats_sentences_def split_def
        trim_def remove_spaces_def divide_counts_def or_zero_def)
  moreover have "calculateWordFrequency [] = []"
    by (simp add: calculateWordFrequency_def frequency_of_def frequency_words_def
        match_words_def toLowerCase_def Object_entries_def)
  ultimately show ?thesis using avgWordLength_finite by blast
qed

text \<open>
  C8. The text \<open>The quick fox. The fox jumps!\<close> has 6 words and 2 sentences; its
  frequency list is \<open>fox\<close> with 2, then \<open>quick\<close> and \<open>jumps\<close> with 1 each, and
  \<open>the\<close> is not in it.
\<close>

theorem quick_fox_example:
  "wordCount (calculateStats ''The quick fox. The fox jumps!'') = 6
   \<and> sentenceCount (calculateStats ''The quick fox. The fox jumps!'') = 2
   \<and> calculateWordFrequency ''The quick fox. The fox jumps!''
       = [(''fox'', Num 2), (''quick'', Num 1), (''jumps'', Num 1)]
   \<and> ''the'' \<notin> fst ` set (calculateWordFrequency ''The quick fox. The fox jumps!'')"
proof -
  have w: "wordCount (calculateStats ''The quick fox. The fox jumps!'') = 6"
    by code_simp
  have s: "sentenceCount (calculateStats ''The quick fox. The fox jumps!'') = 2"
    by code_simp
  have f: "calculateWordFrequency ''The quick fox. The fox jumps!''
       = [(''fox'', Num 2), (''quick'', Num 1), (''jumps'', Num 1)]"
    by code_simp
  show ?thesis unfolding f using w s by simp
qed

section \<open>Properties of processPDF\<close>

lemma ocr_pages_all:
  "map (\<lambda>p. recognize sv p ''eng'') pages = map Inr texts \<Longrightarrow>
   ocr_pages sv pages acc =
     (Inr (acc @ concat (map (\<lambda>t. t @ [CHR 0x0A]) texts)),
      map (\<lambda>p. Recognize p ''eng'') pages)"
proof (induction pages arbitrary: acc texts)
  case Nil
  then show ?case by simp
next
  case (Cons p ps)
  then obtain t ts where texts: "texts = t # ts" by (cases texts) auto
  with Cons.prems have p: "recognize sv p ''eng'' = Inr t"
    and ps: "map (\<lambda>p. recognize sv p ''eng'') ps = map Inr ts" by auto
  show ?case using Cons.IH [OF ps] by (simp add: p texts)
qed





text \<open>
  C6. On the OCR path, when every page is recognized, the extracted text is the
  concatenation of the recognized texts in the order of the pages, each followed by a
  newline.
\<close>

theorem ocr_page_order:
  assumes "pdfParse sv buffer = Inr direct"
    and "length (trim direct) \<le> 50"
    and "fromBuffer sv = Some f"
    and "f buffer = Inr pages"
    and "map (\<lambda>p. recognize sv p ''eng'') pages = map Inr texts"
  shows "fst (processPDF sv buffer) = Inr (concat (map (\<lambda>t. t @ [CHR 0x0A]) texts))"
  using assms(1-4) ocr_pages_all [OF assms(5), of "[]"]
  by (simp add: processPDF_def try_block_def)

theorem ocr_page_order_witness:
  "fst (processPDF
     \<lparr> pdfParse = (\<lambda>b::nat. Inr '' ''),
       fromBuffer = Some (\<lambda>b. Inr [3::nat, 1, 2]),
       recognize = (\<lambda>p lang. if p = 1 then Inr ''one'' else if p = 2 then Inr ''two''
                              else Inr ''three'') \<rparr> 0)
   = Inr (''three'' @ [CHR 0x0A] @ ''one'' @ [CHR 0x0A] @ ''two'' @ [CHR 0x0A])"
proof -
  let ?sv = "\<lparr> pdfParse = (\<lambda>b::nat. Inr '' ''),
       fromBuffer = Some (\<lambda>b. Inr [3::nat, 1, 2]),
       recognize = (\<lambda>p lang. if p = 1 then Inr ''one'' else if p = 2 then Inr ''two''
                              else Inr ''three'') \<rparr>"
  have a: "pdfParse ?sv 0 = Inr '' ''" by simp
  have b: "length (trim '' '') \<le> 50" by code_simp
  have c: "fromBuffer ?sv = Some (\<lambda>b. Inr [3::nat, 1, 2])" by simp
  have d: "(\<lambda>b::nat. Inr [3::nat, 1, 2]) 0 = (Inr [3, 1, 2] :: thrown + nat list)" by simp
  have e: "map (\<lambda>p. recognize ?sv p ''eng'') [3, 1, 2] = map Inr [''three'', ''one'', ''two'']"
    by simp
  show ?thesis using ocr_page_order [OF a b c d e] by simp
qed




section \<open>Properties of calculateWordFrequency\<close>

subsection \<open>Order in a list, and the sort\<close>

lemma before_in_set: "before xs a b \<Longrightarrow> a \<in> set xs \<and> b \<in> set xs"
  by (induction xs) auto

lemma before_append:
  "before (xs @ ys) a b \<longleftrightarrow> before xs a b \<or> before ys a b \<or> (a \<in> set xs \<and> b \<in> set ys)"
  by (induction xs) (auto dest: before_in_set)

lemma before_filter:
  "before (filter P xs) a b \<longleftrightarrow> before xs a b \<and> P a \<and> P b"
  by (induction xs) (auto dest: before_in_set)

lemma before_nth:
  "i < j \<Longrightarrow> j < length xs \<Longrightarrow> before xs (xs ! i) (xs ! j)"
proof (induction xs arbitrary: i j)
  case Nil
  then show ?case by simp
next
  case (Cons x xs)
  show ?case
  proof (cases i)
    case 0
    with Cons.prems show ?thesis by (cases j) auto
  next
    case (Suc i')
    with Cons.prems obtain j' where "j = Suc j'" "i' < j'" "j' < length xs"
      by (cases j) auto
    with Cons.IH Suc show ?thesis by simp
  qed
qed

lemma before_take: "before (take n xs) a b \<Longrightarrow> before xs a b"
  using before_append [of "take n xs" "drop n xs" a b] by simp

lemma before_map: "before xs a b \<Longrightarrow> before (map f xs) (f a) (f b)"
  by (induction xs) auto

lemma before_sorted:
  "sorted (map f xs) \<Longrightarrow> before xs a b \<Longrightarrow> f a \<le> f b"
  by (induction xs) auto

lemma before_distinct: "distinct xs \<Longrightarrow> before xs a b \<Longrightarrow> a \<noteq> b"
  by (induction xs) (auto dest: before_in_set)

lemma before_sort_key:
  assumes "before (sort_key f xs) a b" and "f a = f b"
  shows "before xs a b"
proof -
  have "before (filter (\<lambda>y. f y = f a) (sort_key f xs)) a b"
    using assms by (simp add: before_filter)
  then have "before (filter (\<lambda>y. f y = f a) xs) a b"
    by (simp only: sort_key_stable)
  then show ?thesis by (simp add: before_filter)
qed

lemma insert_sorted_insort:
  "\<exists>n. snd x = Num n \<Longrightarrow> \<forall>e\<in>set ys. \<exists>n. snd e = Num n \<Longrightarrow>
   insert_sorted x ys = insort_key (\<lambda>e. - count_of e) x ys"
  by (induction ys) (auto simp: sort_compare_def comparator_def count_of_def)

lemma array_sort_sort_key:
  "\<forall>e\<in>set xs. \<exists>n. snd e = Num n \<Longrightarrow> array_sort xs = sort_key (\<lambda>e. - count_of e) xs"
  by (induction xs) (auto simp: insert_sorted_insort)

subsection \<open>The object \<open>frequency\<close>\<close>

lemma keys_put_property:
  "map fst (put_property obj k v) =
     (if k \<in> set (map fst obj) then map fst obj else map fst obj @ [k])"
  by (induction obj) auto

lemma set_put_property:
  "set (put_property obj k v) \<subseteq> insert (k, v) (set obj)"
  by (induction obj) auto

lemma keys_count_word:
  "map fst (count_word obj w) =
     (if w \<notin> stopWords \<and> w \<noteq> ''__proto__'' \<and> w \<notin> set (map fst obj)
      then map fst obj @ [w] else map fst obj)"
  by (simp add: count_word_def assign_def keys_put_property)

lemma count_word_numbers:
  assumes "\<forall>e\<in>set obj. \<exists>n. snd e = Num n" and "w \<noteq> ''constructor''"
  shows "\<forall>e\<in>set (count_word obj w). \<exists>n. snd e = Num n"
proof (cases "w \<notin> stopWords \<and> w \<noteq> ''__proto__''")
  case False
  with assms show ?thesis by (auto simp: count_word_def assign_def)
next
  case True
  have "\<exists>n. next_count obj w = Num n"
  proof (cases "map_of obj w")
    case None
    with True assms(2) show ?thesis by (simp add: next_count_def)
  next
    case (Some v)
    then have "(w, v) \<in> set obj" by (rule map_of_SomeD)
    with assms(1) obtain n where "v = Num n" by fastforce
    with Some show ?thesis by (simp add: next_count_def)
  qed
  with assms(1) set_put_property [of obj w "next_count obj w"] True
  show ?thesis by (auto simp: count_word_def assign_def)
qed

lemma frequency_numbers:
  "''constructor'' \<notin> set ws \<Longrightarrow> \<forall>e\<in>set (foldl count_word [] ws). \<exists>n. snd e = Num n"
proof (induction ws rule: rev_induct)
  case Nil
  show ?case by simp
next
  case (snoc w ws)
  then have "\<forall>e\<in>set (foldl count_word [] ws). \<exists>n. snd e = Num n"
    and "w \<noteq> ''constructor''"
    by auto
  then have "\<forall>e\<in>set (count_word (foldl count_word [] ws) w). \<exists>n. snd e = Num n"
    by (rule count_word_numbers)
  then show ?case by simp
qed

lemma frequency_keys:
  "distinct (map fst (foldl count_word [] ws))
   \<and> set (map fst (foldl count_word [] ws))
       = {w \<in> set ws. w \<notin> stopWords \<and> w \<noteq> ''__proto__''}
   \<and> (\<forall>a b. before (map fst (foldl count_word [] ws)) a b \<longrightarrow> first_seen_before ws a b)"
proof (induction ws rule: rev_induct)
  case Nil
  show ?case by simp
next
  case (snoc w ws)
  let ?K = "map fst (foldl count_word [] ws)"
  from snoc have d: "distinct ?K"
    and s: "set ?K = {w \<in> set ws. w \<notin> stopWords \<and> w \<noteq> ''__proto__''}"
    and b: "\<And>a b. before ?K a b \<Longrightarrow> first_seen_before ws a b"
    by blast+
  have mono: "\<And>a b. first_seen_before ws a b \<Longrightarrow> first_seen_before (ws @ [w]) a b"
    by (auto simp: first_seen_before_def takeWhile_append dest: set_takeWhileD)
  show ?case
  proof (cases "w \<notin> stopWords \<and> w \<noteq> ''__proto__'' \<and> w \<notin> set ?K")
    case False
    then have k: "map fst (foldl count_word [] (ws @ [w])) = ?K"
      by (simp add: keys_count_word)
    from False s have "set ?K = {x \<in> set (ws @ [w]). x \<notin> stopWords \<and> x \<noteq> ''__proto__''}"
      by auto
    with d b mono show ?thesis unfolding k by blast
  next
    case True
    then have k: "map fst (foldl count_word [] (ws @ [w])) = ?K @ [w]"
      by (simp add: keys_count_word)
    from True s have new: "w \<notin> set ws" by auto
    have "first_seen_before (ws @ [w]) a c" if "before (?K @ [w]) a c" for a c
    proof -
      from that consider "before ?K a c" | "a \<in> set ?K" "c = w"
        by (auto simp: before_append)
      then show ?thesis
      proof cases
        case 1
        then show ?thesis using b mono by blast
      next
        case 2
        with s have "a \<in> set ws" by auto
        with 2 new show ?thesis
          by (auto simp: first_seen_before_def takeWhile_append)
      qed
    qed
    moreover from True d have "distinct (?K @ [w])" by simp
    moreover from True s
    have "set (?K @ [w]) = {x \<in> set (ws @ [w]). x \<notin> stopWords \<and> x \<noteq> ''__proto__''}"
      by auto
    ultimately show ?thesis unfolding k by blast
  qed
qed

subsection \<open>Array indices\<close>

lemma index_value_snoc:
  "index_value (k @ [c]) = 10 * index_value k + (of_char c - 48)"
  by (simp add: index_value_def)

lemma digit_value:
  assumes "is_digit c"
  shows "0 \<le> (of_char c :: int) - 48" and "(of_char c :: int) - 48 \<le> 9"
proof -
  have "(of_char c :: int) = int (of_char c)" by (simp add: of_nat_of_char)
  with assms show "0 \<le> (of_char c :: int) - 48" and "(of_char c :: int) - 48 \<le> 9"
    by (simp_all add: is_digit_def Let_def)
qed

lemma index_value_bounds:
  "list_all is_digit k \<Longrightarrow> 0 \<le> index_value k \<and> index_value k < 10 ^ length k"
proof (induction k rule: rev_induct)
  case Nil
  show ?case by (simp add: index_value_def)
next
  case (snoc c k)
  then have "is_digit c" and ih: "0 \<le> index_value k" "index_value k < 10 ^ length k"
    by simp_all
  from digit_value [OF \<open>is_digit c\<close>] ih show ?case
    by (simp add: index_value_snoc)
qed

lemma index_value_lower:
  "k \<noteq> [] \<Longrightarrow> list_all is_digit k \<Longrightarrow> hd k \<noteq> CHR ''0'' \<Longrightarrow>
   10 ^ (length k - 1) \<le> index_value k"
proof (induction k rule: rev_induct)
  case Nil
  then show ?case by simp
next
  case (snoc c k)
  then have c: "is_digit c" and k: "list_all is_digit k" by simp_all
  show ?case
  proof (cases "k = []")
    case True
    with snoc.prems have "c \<noteq> CHR ''0''" by simp
    then have "(of_char c :: int) \<noteq> of_char (CHR ''0'')" by (simp only: of_char_eq_iff not_False_eq_True)
    then have "(of_char c :: int) \<noteq> 48" by simp
    with digit_value [OF c] True show ?thesis
      by (simp add: index_value_def)
  next
    case False
    with snoc.prems have "hd k \<noteq> CHR ''0''" by simp
    with snoc.IH False k have "10 ^ (length k - 1) \<le> index_value k" by simp
    then have "10 * 10 ^ (length k - 1) \<le> 10 * index_value k" by simp
    moreover from False have "10 * (10::int) ^ (length k - 1) = 10 ^ length k"
      by (cases k) simp_all
    ultimately show ?thesis using digit_value [OF c]
      by (simp add: index_value_snoc)
  qed
qed

lemma index_value_inj_same_length:
  "list_all is_digit a \<Longrightarrow> list_all is_digit b \<Longrightarrow> length a = length b \<Longrightarrow>
   index_value a = index_value b \<Longrightarrow> a = b"
proof (induction a arbitrary: b rule: rev_induct)
  case Nil
  then show ?case by simp
next
  case (snoc c a)
  from snoc.prems(3) obtain d b' where b: "b = b' @ [d]"
    by (cases b rule: rev_cases) auto
  from snoc.prems b have c: "is_digit c" and d: "is_digit d"
    and a': "list_all is_digit a" and b': "list_all is_digit b'"
    and len: "length a = length b'" by simp_all
  from snoc.prems(4) b
  have eq: "10 * index_value a + (of_char c - 48) = 10 * index_value b' + (of_char d - 48)"
    by (simp add: index_value_snoc)
  with digit_value [OF c] digit_value [OF d]
  have "index_value a = index_value b'" and "(of_char c :: int) = of_char d"
    by presburger+
  with snoc.IH [OF a' b' len] b show ?case by simp
qed

lemma array_index_inj:
  assumes "is_array_index a" and "is_array_index b" and "index_value a = index_value b"
  shows "a = b"
proof -
  have len: "length x \<le> length y"
    if x: "x \<noteq> []" "list_all is_digit x" "x = ''0'' \<or> hd x \<noteq> CHR ''0''"
      and y: "y \<noteq> []" "list_all is_digit y"
      and eq: "index_value x = index_value y" for x y
  proof (cases "x = ''0''")
    case True
    with y show ?thesis by (cases y) simp_all
  next
    case False
    with x have "hd x \<noteq> CHR ''0''" by simp
    with x have "10 ^ (length x - 1) \<le> index_value x"
      by (intro index_value_lower)
    also have "\<dots> < 10 ^ length y"
      using index_value_bounds [OF y(2)] eq by simp
    finally have "length x - 1 < length y"
      by (simp add: power_strict_increasing_iff)
    then show ?thesis by simp
  qed
  from assms have "length a \<le> length b" and "length b \<le> length a"
    by (auto simp: is_array_index_def intro: len)
  then have "length a = length b" by simp
  with assms show ?thesis
    by (auto simp: is_array_index_def intro: index_value_inj_same_length)
qed

subsection \<open>The order of the frequency list\<close>

lemma before_Object_entries:
  assumes d: "distinct (map fst obj)" and b: "before (Object_entries obj) x y"
  shows "(is_array_index (fst x) \<and> is_array_index (fst y)
            \<and> index_value (fst x) < index_value (fst y))
       \<or> (is_array_index (fst x) \<and> \<not> is_array_index (fst y))
       \<or> (\<not> is_array_index (fst x) \<and> \<not> is_array_index (fst y)
            \<and> before (map fst obj) (fst x) (fst y))"
proof -
  let ?I = "sort_key (\<lambda>e. index_value (fst e)) (filter (\<lambda>e. is_array_index (fst e)) obj)"
  let ?N = "filter (\<lambda>e. \<not> is_array_index (fst e)) obj"
  from b consider "before ?I x y" | "before ?N x y" | "x \<in> set ?I" "y \<in> set ?N"
    by (auto simp: Object_entries_def before_append)
  then show ?thesis
  proof cases
    case 1
    then have mem: "x \<in> set ?I" "y \<in> set ?I" by (auto dest: before_in_set)
    then have idx: "is_array_index (fst x)" "is_array_index (fst y)" by auto
    have srt: "sorted (map (\<lambda>e. index_value (fst e)) ?I)" by (rule sorted_sort_key)
    have le: "index_value (fst x) \<le> index_value (fst y)"
      using before_sorted [OF srt 1] by simp
    from d have "distinct (map fst (filter (\<lambda>e. is_array_index (fst e)) obj))"
      by (rule distinct_map_filter)
    then have "distinct (map fst ?I)" by (simp add: distinct_map)
    moreover from 1 have "before (map fst ?I) (fst x) (fst y)" by (rule before_map)
    ultimately have "fst x \<noteq> fst y" by (rule before_distinct)
    with idx have "index_value (fst x) \<noteq> index_value (fst y)"
      using array_index_inj by blast
    with le idx show ?thesis by simp
  next
    case 2
    then have "before obj x y" and n: "\<not> is_array_index (fst x)" "\<not> is_array_index (fst y)"
      by (simp_all add: before_filter)
    then have "before (map fst obj) (fst x) (fst y)" by (simp add: before_map)
    with n show ?thesis by simp
  next
    case 3
    then show ?thesis by auto
  qed
qed

subsection \<open>The shape of the frequency list\<close>

text \<open>
  What holds of every frequency list: at most 20 entries, no stop word, and words that
  are non-empty runs of word characters in lower case. When the text does not hold the
  word \<open>constructor\<close>, the counts are numbers and do not increase along the list.
\<close>

lemma toLowerCase_char_idem: "toLowerCase_char (toLowerCase_char c) = toLowerCase_char c"
proof -
  have "(of_char c :: nat) < 256"
    using range_nat_of_char by auto
  then show ?thesis
    by (auto simp: toLowerCase_char_def Let_def)
qed

lemma word_runs_shape:
  "\<forall>c\<in>set run. re_word c \<Longrightarrow> w \<in> set (word_runs run s) \<Longrightarrow>
   w \<noteq> [] \<and> (\<forall>c\<in>set w. re_word c \<and> c \<in> set run \<union> set s)"
proof (induction s arbitrary: run)
  case Nil
  then show ?case by (auto split: if_splits)
next
  case (Cons a s)
  show ?case
  proof (cases "re_word a")
    case True
    with Cons.prems have "\<forall>c\<in>set (run @ [a]). re_word c"
      and "w \<in> set (word_runs (run @ [a]) s)"
      by simp_all
    then have "w \<noteq> [] \<and> (\<forall>c\<in>set w. re_word c \<and> c \<in> set (run @ [a]) \<union> set s)"
      by (rule Cons.IH)
    then show ?thesis by auto
  next
    case False
    with Cons.prems(2) consider "w = run" "run \<noteq> []" | "w \<in> set (word_runs [] s)"
      by (auto split: if_splits)
    then show ?thesis
    proof cases
      case 1
      with Cons.prems(1) show ?thesis by auto
    next
      case 2
      with Cons.IH [of "[]"]
      have "w \<noteq> [] \<and> (\<forall>c\<in>set w. re_word c \<and> c \<in> set [] \<union> set s)"
        by simp
      then show ?thesis by auto
    qed
  qed
qed

lemma frequency_words_shape:
  assumes "w \<in> set (frequency_words s)"
  shows "w \<noteq> [] \<and> (\<forall>c\<in>set w. re_word c \<and> toLowerCase_char c = c)"
proof -
  from assms have "w \<in> set (word_runs [] (toLowerCase s))"
    by (auto simp: frequency_words_def match_words_def split: list.splits option.splits)
  then have "w \<noteq> [] \<and> (\<forall>c\<in>set w. re_word c \<and> c \<in> set (toLowerCase s))"
    using word_runs_shape [of "[]" w "toLowerCase s"] by simp
  then show ?thesis
    by (auto simp: toLowerCase_def toLowerCase_char_idem)
qed

lemma set_insert_sorted: "set (insert_sorted x ys) = insert x (set ys)"
  by (induction ys) auto

lemma set_array_sort: "set (array_sort xs) = set xs"
  by (induction xs) (auto simp: set_insert_sorted)

lemma frequency_list_shape:
  "length (calculateWordFrequency s) \<le> 20
   \<and> (\<forall>e\<in>set (calculateWordFrequency s).
         fst e \<notin> stopWords \<and> fst e \<noteq> []
         \<and> (\<forall>c\<in>set (fst e). re_word c \<and> toLowerCase_char c = c))"
proof -
  have "fst e \<in> set (frequency_words s) \<and> fst e \<notin> stopWords"
    if "e \<in> set (calculateWordFrequency s)" for e
  proof -
    from that have "e \<in> set (array_sort (Object_entries (frequency_of s)))"
      unfolding calculateWordFrequency_def by (rule in_set_takeD)
    then have "e \<in> set (frequency_of s)"
      by (auto simp: set_array_sort Object_entries_def)
    then have "fst e \<in> set (map fst (foldl count_word [] (frequency_words s)))"
      by (simp add: frequency_of_def)
    then show ?thesis using frequency_keys [of "frequency_words s"] by auto
  qed
  then have "fst e \<notin> stopWords \<and> fst e \<noteq> []
         \<and> (\<forall>c\<in>set (fst e). re_word c \<and> toLowerCase_char c = c)"
    if "e \<in> set (calculateWordFrequency s)" for e
    using that frequency_words_shape [of "fst e" s] by blast
  moreover have "length (calculateWordFrequency s) \<le> 20"
    by (simp add: calculateWordFrequency_def)
  ultimately show ?thesis by blast
qed

lemma frequency_list_sorted:
  assumes "''constructor'' \<notin> set (frequency_words s)"
  shows "sorted (map (\<lambda>e. - count_of e) (calculateWordFrequency s))"
proof -
  have "\<forall>e\<in>set (frequency_of s). \<exists>n. snd e = Num n"
    unfolding frequency_of_def using assms by (rule frequency_numbers)
  then have "\<forall>e\<in>set (Object_entries (frequency_of s)). \<exists>n. snd e = Num n"
    by (auto simp: Object_entries_def)
  then have "array_sort (Object_entries (frequency_of s))
      = sort_key (\<lambda>e. - count_of e) (Object_entries (frequency_of s))"
    by (rule array_sort_sort_key)
  then show ?thesis
    by (simp add: calculateWordFrequency_def take_map [symmetric] sorted_wrt_take)
qed

subsection \<open>The claims on the frequency list\<close>

text \<open>
  C2. The text \<open>a constructor b b\<close>: the read of \<open>frequency["constructor"]\<close> finds the
  function \<open>Object\<close> that every object inherits, so the count of \<open>constructor\<close> is the
  string \<open>function Object() { [native code] }1\<close>, not a number. The comparator gives
  \<open>NaN\<close> against it, and the list that comes back has \<open>a\<close> with 1 ahead of \<open>b\<close> with 2.
\<close>

theorem constructor_count_not_sorted:
  "calculateWordFrequency ''a constructor b b''
     = [(''a'', Num 1),
        (''constructor'', Str ''function Object() { [native code] }1''),
        (''b'', Num 2)]"
  by code_simp

text \<open>
  C7, as stated. In the text \<open>b 1\<close> the word \<open>b\<close> is met first and both words have the
  count 1, but the list has \<open>1\<close> ahead of \<open>b\<close>: the key \<open>1\<close> is an array index.
\<close>

theorem first_seen_counterexample:
  "(0::nat) < 1 \<and> 1 < length (calculateWordFrequency ''b 1'')
   \<and> snd (calculateWordFrequency ''b 1'' ! 0) = snd (calculateWordFrequency ''b 1'' ! 1)
   \<and> \<not> first_seen_before (frequency_words ''b 1'')
         (fst (calculateWordFrequency ''b 1'' ! 0)) (fst (calculateWordFrequency ''b 1'' ! 1))"
proof -
  have r: "calculateWordFrequency ''b 1'' = [(''1'', Num 1), (''b'', Num 1)]"
    by code_simp
  have w: "frequency_words ''b 1'' = [''b'', ''1'']"
    by code_simp
  show ?thesis unfolding r w by (simp add: first_seen_before_def)
qed

text \<open>
  C7, amended. When the text does not hold the word \<open>constructor\<close>, two entries of the
  frequency list with the same count stand in the order of \<open>Object.entries\<close>: words that
  are array indices first, by ascending value, then the other words in the order in which
  they were first met.
\<close>

theorem tie_order:
  assumes nc: "''constructor'' \<notin> set (frequency_words s)"
    and ij: "i < j" "j < length (calculateWordFrequency s)"
    and eq: "snd (calculateWordFrequency s ! i) = snd (calculateWordFrequency s ! j)"
  shows "key_order (frequency_words s)
           (fst (calculateWordFrequency s ! i)) (fst (calculateWordFrequency s ! j))"
proof -
  let ?ws = "frequency_words s"
  let ?obj = "frequency_of s"
  let ?E = "Object_entries ?obj"
  let ?r = "calculateWordFrequency s"
  let ?f = "\<lambda>e. - count_of e"
  have nums: "\<forall>e\<in>set ?obj. \<exists>n. snd e = Num n"
    unfolding frequency_of_def using nc by (rule frequency_numbers)
  then have "\<forall>e\<in>set ?E. \<exists>n. snd e = Num n"
    by (auto simp: Object_entries_def)
  then have sort: "array_sort ?E = sort_key ?f ?E" by (rule array_sort_sort_key)
  from ij have "before ?r (?r ! i) (?r ! j)" by (rule before_nth)
  then have "before (sort_key ?f ?E) (?r ! i) (?r ! j)"
    unfolding calculateWordFrequency_def sort by (rule before_take)
  moreover from eq have "?f (?r ! i) = ?f (?r ! j)" by (simp add: count_of_def)
  ultimately have "before ?E (?r ! i) (?r ! j)" by (rule before_sort_key)
  moreover have d: "distinct (map fst ?obj)"
    unfolding frequency_of_def using frequency_keys by blast
  ultimately have "(is_array_index (fst (?r ! i)) \<and> is_array_index (fst (?r ! j))
            \<and> index_value (fst (?r ! i)) < index_value (fst (?r ! j)))
       \<or> (is_array_index (fst (?r ! i)) \<and> \<not> is_array_index (fst (?r ! j)))
       \<or> (\<not> is_array_index (fst (?r ! i)) \<and> \<not> is_array_index (fst (?r ! j))
            \<and> before (map fst ?obj) (fst (?r ! i)) (fst (?r ! j)))"
    by (rule before_Object_entries [rotated])
  moreover have "first_seen_before ?ws a b" if "before (map fst ?obj) a b" for a b
    using that frequency_keys [of ?ws] unfolding frequency_of_def by blast
  ultimately show ?thesis unfolding key_order_def by blast
qed

theorem tie_order_witness:
  "''constructor'' \<notin> set (frequency_words ''b 2 a 1'')
   \<and> calculateWordFrequency ''b 2 a 1''
       = [(''1'', Num 1), (''2'', Num 1), (''b'', Num 1), (''a'', Num 1)]
   \<and> key_order (frequency_words ''b 2 a 1'') ''1'' ''2''
   \<and> key_order (frequency_words ''b 2 a 1'') ''2'' ''b''
   \<and> key_order (frequency_words ''b 2 a 1'') ''b'' ''a''"
proof -
  have nc: "''constructor'' \<notin> set (frequency_words ''b 2 a 1'')"
    by code_simp
  have r: "calculateWordFrequency ''b 2 a 1''
       = [(''1'', Num 1), (''2'', Num 1), (''b'', Num 1), (''a'', Num 1)]"
    by code_simp
  have "key_order (frequency_words ''b 2 a 1'') ''1'' ''2''"
    using tie_order [OF nc, of 0 1] by (simp add: r)
  moreover have "key_order (frequency_words ''b 2 a 1'') ''2'' ''b''"
    using tie_order [OF nc, of 1 2] by (simp add: r)
  moreover have "key_order (frequency_words ''b 2 a 1'') ''b'' ''a''"
    using tie_order [OF nc, of 2 3] by (simp add: r)
  ultimately show ?thesis using nc r by blast
qed

section \<open>Repeated invocations\<close>

subsection \<open>A call leaves the realm as it found it\<close>

lemma count_word_in_realm: "fst (count_word_in (g, f) w) = g"
  by (simp add: count_word_in_def assign_in_def split: option.splits slot.splits)

lemma foldl_count_word_in_realm: "fst (foldl count_word_in (g, f) ws) = g"
proof (induction ws arbitrary: f)
  case Nil
  show ?case by simp
next
  case (Cons w ws)
  obtain f' where "count_word_in (g, f) w = (g, f')"
    using count_word_in_realm [of g f w] by (cases "count_word_in (g, f) w") simp
  with Cons.IH [of f'] show ?case by simp
qed

lemma call_keeps_realm: "snd (calculateWordFrequency_call g s) = g"
  using foldl_count_word_in_realm [of g "[]" "frequency_words s"]
  by (cases "foldl count_word_in (g, []) (frequency_words s)")
    (simp add: calculateWordFrequency_call_def)

subsection \<open>In the standard realm a call gives the frequency list defined above\<close>

lemma capital_differs:
  "\<forall>c\<in>set w. toLowerCase_char c = c \<Longrightarrow> \<not> (\<forall>c\<in>set n. toLowerCase_char c = c) \<Longrightarrow> w \<noteq> n"
  by auto

lemma standard_lookup:
  assumes low: "\<forall>c\<in>set w. toLowerCase_char c = c"
  shows "map_of (object_prototype standard_realm) w =
     (if w = ''constructor'' then Some (ObjectValue ''function Object() { [native code] }'')
      else if w = ''__proto__'' then Some ProtoAccessor else None)"
proof -
  have "\<not> (\<forall>c\<in>set ''__defineGetter__''. toLowerCase_char c = c)" by code_simp
  then have 1: "w \<noteq> ''__defineGetter__''" by (rule capital_differs [OF low])
  have "\<not> (\<forall>c\<in>set ''__defineSetter__''. toLowerCase_char c = c)" by code_simp
  then have 2: "w \<noteq> ''__defineSetter__''" by (rule capital_differs [OF low])
  have "\<not> (\<forall>c\<in>set ''hasOwnProperty''. toLowerCase_char c = c)" by code_simp
  then have 3: "w \<noteq> ''hasOwnProperty''" by (rule capital_differs [OF low])
  have "\<not> (\<forall>c\<in>set ''__lookupGetter__''. toLowerCase_char c = c)" by code_simp
  then have 4: "w \<noteq> ''__lookupGetter__''" by (rule capital_differs [OF low])
  have "\<not> (\<forall>c\<in>set ''__lookupSetter__''. toLowerCase_char c = c)" by code_simp
  then have 5: "w \<noteq> ''__lookupSetter__''" by (rule capital_differs [OF low])
  have "\<not> (\<forall>c\<in>set ''isPrototypeOf''. toLowerCase_char c = c)" by code_simp
  then have 6: "w \<noteq> ''isPrototypeOf''" by (rule capital_differs [OF low])
  have "\<not> (\<forall>c\<in>set ''propertyIsEnumerable''. toLowerCase_char c = c)" by code_simp
  then have 7: "w \<noteq> ''propertyIsEnumerable''" by (rule capital_differs [OF low])
  have "\<not> (\<forall>c\<in>set ''toString''. toLowerCase_char c = c)" by code_simp
  then have 8: "w \<noteq> ''toString''" by (rule capital_differs [OF low])
  have "\<not> (\<forall>c\<in>set ''valueOf''. toLowerCase_char c = c)" by code_simp
  then have 9: "w \<noteq> ''valueOf''" by (rule capital_differs [OF low])
  have "\<not> (\<forall>c\<in>set ''toLocaleString''. toLowerCase_char c = c)" by code_simp
  then have 10: "w \<noteq> ''toLocaleString''" by (rule capital_differs [OF low])
  from 1 2 3 4 5 6 7 8 9 10 show ?thesis
    by (simp add: standard_realm_def)
qed

lemma count_word_in_standard:
  assumes low: "\<forall>c\<in>set w. toLowerCase_char c = c"
    and np: "''__proto__'' \<notin> fst ` set f"
  shows "count_word_in (standard_realm, f) w = (standard_realm, count_word f w)"
proof -
  have n: "next_count_in standard_realm f w = next_count f w"
    using standard_lookup [OF low]
    by (auto simp: next_count_in_def next_count_def get_property_def
        split: option.splits jsvalue.splits if_splits)
  have "assign_in standard_realm f w v = (standard_realm, assign f w v)" for v
    using np standard_lookup [OF low]
    by (auto simp: assign_in_def assign_def split: if_splits)
  with n show ?thesis by (simp add: count_word_in_def count_word_def)
qed

lemma foldl_count_word_in_standard:
  "\<forall>w\<in>set ws. \<forall>c\<in>set w. toLowerCase_char c = c \<Longrightarrow>
   foldl count_word_in (standard_realm, []) ws = (standard_realm, foldl count_word [] ws)"
proof (induction ws rule: rev_induct)
  case Nil
  show ?case by simp
next
  case (snoc w ws)
  then have ih: "foldl count_word_in (standard_realm, []) ws
      = (standard_realm, foldl count_word [] ws)"
    and low: "\<forall>c\<in>set w. toLowerCase_char c = c"
    by simp_all
  have "set (map fst (foldl count_word [] ws))
      = {w \<in> set ws. w \<notin> stopWords \<and> w \<noteq> ''__proto__''}"
    using frequency_keys [of ws] by blast
  then have "''__proto__'' \<notin> fst ` set (foldl count_word [] ws)" by auto
  with low have "count_word_in (standard_realm, foldl count_word [] ws) w
      = (standard_realm, count_word (foldl count_word [] ws) w)"
    by (rule count_word_in_standard)
  with ih show ?case by simp
qed

lemma call_in_standard_realm:
  "calculateWordFrequency_call standard_realm s = (calculateWordFrequency s, standard_realm)"
proof -
  have "\<forall>w\<in>set (frequency_words s). \<forall>c\<in>set w. toLowerCase_char c = c"
    using frequency_words_shape by blast
  then have "foldl count_word_in (standard_realm, []) (frequency_words s)
      = (standard_realm, foldl count_word [] (frequency_words s))"
    by (rule foldl_count_word_in_standard)
  then show ?thesis
    by (simp add: calculateWordFrequency_call_def calculateWordFrequency_def frequency_of_def)
qed

subsection \<open>The claim on repeated invocations\<close>

text \<open>
  C9. A second invocation on the same text, run in the realm that the first one has
  left, gives the same statistics record and the same frequency list, whatever the
  realm was at the start, and neither function changes the realm: no state of one call
  reaches the next.
\<close>

theorem analysis_repeatable:
  "fst (calculateStats_call (snd (calculateStats_call g s)) s) = fst (calculateStats_call g s)
   \<and> fst (calculateWordFrequency_call (snd (calculateWordFrequency_call g s)) s)
       = fst (calculateWordFrequency_call g s)
   \<and> snd (calculateStats_call g s) = g
   \<and> snd (calculateWordFrequency_call g s) = g"
  by (simp add: call_keeps_realm calculateStats_call_def)

theorem analysis_repeatable_witness:
  "fst (calculateWordFrequency_call standard_realm ''A Constructor fox. The fox!'')
     = [(''a'', Num 1), (''constructor'', Str ''function Object() { [native code] }1''),
        (''fox'', Num 2)]
   \<and> fst (calculateWordFrequency_call
        (snd (calculateWordFrequency_call standard_realm ''A Constructor fox. The fox!''))
        ''A Constructor fox. The fox!'')
     = [(''a'', Num 1), (''constructor'', Str ''function Object() { [native code] }1''),
        (''fox'', Num 2)]
   \<and> fst (calculateStats_call
        (snd (calculateStats_call standard_realm ''A Constructor fox. The fox!''))
        ''A Constructor fox. The fox!'')
     = fst (calculateStats_call standard_realm ''A Constructor fox. The fox!'')
   \<and> snd (calculateWordFrequency_call standard_realm ''A Constructor fox. The fox!'')
     = standard_realm"
proof -
  have r: "fst (calculateWordFrequency_call standard_realm ''A Constructor fox. The fox!'')
     = [(''a'', Num 1), (''constructor'', Str ''function Object() { [native code] }1''),
        (''fox'', Num 2)]"
    by code_simp
  show ?thesis
    using analysis_repeatable [of standard_realm "''A Constructor fox. The fox!''"] r
    by simp
qed

end
